theory Spec2Isabelle
  imports Complex_Main "HOL-Library.List_Lexorder" "HOL-Library.Product_Lexorder"
begin

section \<open>Python strings\<close>

text \<open>
  A Python \<open>str\<close> is a sequence of Unicode code points; it is modelled as a list of
  natural numbers, so that \<open>length\<close> counts code points and the order on lists
  (lexicographic, a proper prefix first) is Python's order on strings. \<open>str\<close> turns
  an ASCII literal of the theory into such a list.

  Names follow the source. A leading underscore is dropped (\<open>_STOPWORDS\<close> is
  \<open>STOPWORDS\<close>, \<open>_WORD_RE.findall\<close> is \<open>WORD_RE_findall\<close>, \<open>_confidence_heuristic\<close> is
  \<open>confidence_heuristic\<close>, \<open>_analyze_single\<close> is \<open>analyze_single\<close>).
\<close>

type_synonym pystr = "nat list"

definition str :: "string \<Rightarrow> pystr" where
  "str s = map of_char s"

text \<open>
  \<open>isspace\<close> lists the code points that \<open>str.strip()\<close> and \<open>str.split()\<close> without
  argument treat as whitespace: U+0009..U+000D, U+001C..U+0020, U+0085, U+00A0, U+1680,
  U+2000..U+200A, U+2028, U+2029, U+202F, U+205F and U+3000.
\<close>

definition isspace :: "nat \<Rightarrow> bool" where
  "isspace c \<longleftrightarrow>
     (9 \<le> c \<and> c \<le> 13) \<or> (28 \<le> c \<and> c \<le> 32) \<or> c = 133 \<or> c = 160 \<or> c = 5760 \<or>
     (8192 \<le> c \<and> c \<le> 8202) \<or> c = 8232 \<or> c = 8233 \<or> c = 8239 \<or> c = 8287 \<or> c = 12288"

definition strip :: "pystr \<Rightarrow> pystr" where
  "strip s = rev (dropWhile isspace (rev (dropWhile isspace s)))"

text \<open>\<open>s.rstrip(chars)\<close>: drop the trailing code points that occur in \<open>chars\<close>.\<close>

definition rstrip_chars :: "pystr \<Rightarrow> pystr \<Rightarrow> pystr" where
  "rstrip_chars s chars = rev (dropWhile (\<lambda>c. c \<in> set chars) (rev s))"

definition endswith :: "pystr \<Rightarrow> pystr \<Rightarrow> bool" where
  "endswith s suffix \<longleftrightarrow>
     length suffix \<le> length s \<and> drop (length s - length suffix) s = suffix"

text \<open>
  \<open>text.split()\<close>: the maximal runs of code points that are not whitespace, in order.
\<close>

function split :: "pystr \<Rightarrow> pystr list" where
  "split [] = []"
| "split (c # cs) =
     (if isspace c then split cs
      else (c # takeWhile (\<lambda>x. \<not> isspace x) cs) # split (dropWhile (\<lambda>x. \<not> isspace x) cs))"
  by pat_completeness auto
termination
  by (relation "measure length") (auto simp: length_dropWhile_le less_Suc_eq_le)

text \<open>
  Case of a code point. The tables cover Basic Latin and Latin-1 (U+0000..U+00FF), where
  \<open>str.lower()\<close> maps code point by code point: A..Z and U+00C0..U+00DE except the
  multiplication sign U+00D7 move up by 32, everything else stays. The tables say
  nothing about code points above U+00FF. They are used for the keyword extractor, which
  applies \<open>lower\<close>, \<open>isupper\<close> and \<open>islower\<close> to tokens of ASCII characters only. The
  storage backend lowercases arbitrary strings; there \<open>str.lower()\<close> is a parameter.
\<close>

definition is_upper_cp :: "nat \<Rightarrow> bool" where
  "is_upper_cp c \<longleftrightarrow> (65 \<le> c \<and> c \<le> 90) \<or> (192 \<le> c \<and> c \<le> 214) \<or> (216 \<le> c \<and> c \<le> 222)"

definition is_lower_cp :: "nat \<Rightarrow> bool" where
  "is_lower_cp c \<longleftrightarrow>
     (97 \<le> c \<and> c \<le> 122) \<or> c = 170 \<or> c = 181 \<or> c = 186 \<or>
     (223 \<le> c \<and> c \<le> 246) \<or> (248 \<le> c \<and> c \<le> 255)"

definition lower_cp :: "nat \<Rightarrow> nat" where
  "lower_cp c = (if is_upper_cp c then c + 32 else c)"

definition lower :: "pystr \<Rightarrow> pystr" where
  "lower s = map lower_cp s"

text \<open>
  \<open>s.isupper()\<close>: no lowercase letter in \<open>s\<close> and at least one uppercase letter;
  \<open>s.islower()\<close>: no uppercase letter in \<open>s\<close> and at least one lowercase letter. Both
  are false on the empty string and on a string without letters.
\<close>

definition isupper :: "pystr \<Rightarrow> bool" where
  "isupper s \<longleftrightarrow> list_all (\<lambda>c. \<not> is_lower_cp c) s \<and> list_ex is_upper_cp s"

definition islower :: "pystr \<Rightarrow> bool" where
  "islower s \<longleftrightarrow> list_all (\<lambda>c. \<not> is_upper_cp c) s \<and> list_ex is_lower_cp s"

section \<open>Keyword extraction (app/services/keywords.py)\<close>

definition STOPWORDS :: "pystr set" where
  "STOPWORDS = set (map str
    [''the'', ''a'', ''an'', ''and'', ''or'', ''but'', ''if'', ''then'', ''else'', ''when'',
     ''while'', ''for'', ''on'', ''in'', ''to'', ''of'', ''by'', ''with'', ''as'', ''at'',
     ''from'', ''that'', ''this'', ''these'', ''those'', ''it'', ''its'', ''be'', ''is'',
     ''are'', ''was'', ''were'', ''been'', ''being'', ''am'', ''i'', ''you'', ''he'',
     ''she'', ''they'', ''them'', ''we'', ''us'', ''our'', ''your'', ''his'', ''her'',
     ''their'', ''my'', ''mine'', ''yours'', ''ours'', ''theirs'', ''do'', ''does'',
     ''did'', ''done'', ''have'', ''has'', ''had'', ''having'', ''will'', ''would'',
     ''can'', ''could'', ''should'', ''shall'', ''may'', ''might'', ''must'', ''not'',
     ''no'', ''yes'', ''so'', ''than'', ''too'', ''very'', ''there'', ''here'', ''what'',
     ''which'', ''who'', ''whom'', ''whose'', ''how'', ''why'', ''where'', ''into'',
     ''over'', ''under'', ''again'', ''further'', ''once'', ''about'', ''both'',
     ''between'', ''out'', ''up'', ''down'', ''off'', ''above'', ''below'', ''because'',
     ''until'', ''after'', ''before'', ''during'', ''each'', ''few'', ''more'', ''most'',
     ''other'', ''some'', ''such'', ''only'', ''own'', ''same'', ''s'', ''t'', ''d'',
     ''ll'', ''m'', ''o'', ''re'', ''ve'', ''y'', ''don'', ''shouldn'', ''now''])"

definition COMMON_VERBS :: "pystr set" where
  "COMMON_VERBS = set (map str
    [''use'', ''build'', ''create'', ''make'', ''run'', ''scale'', ''deploy'',
     ''call'', ''send'', ''fetch'', ''return'', ''process'', ''analyze'',
     ''extract'', ''store'', ''search'', ''handle'', ''test'', ''containerize'',
     ''support'', ''add'', ''include'', ''design'', ''choose'', ''implement'',
     ''prefer'', ''focus'', ''integrate'', ''accept'', ''provide'', ''generate'',
     ''score'', ''classify'', ''view''])"

text \<open>
  The two character classes of the pattern \<open>[A-Za-z][A-Za-z\-']+\<close>: a token starts with
  an ASCII letter and goes on with at least one ASCII letter, hyphen (U+002D) or
  apostrophe (U+0027).
\<close>

definition word_start :: "nat \<Rightarrow> bool" where
  "word_start c \<longleftrightarrow> (65 \<le> c \<and> c \<le> 90) \<or> (97 \<le> c \<and> c \<le> 122)"

definition word_cont :: "nat \<Rightarrow> bool" where
  "word_cont c \<longleftrightarrow> word_start c \<or> c = 45 \<or> c = 39"

text \<open>
  \<open>_WORD_RE.findall(text)\<close>: the scan tries a match at each position from the left. At a
  letter followed by at least one continuation character the greedy repetition takes
  the whole run and the scan resumes after it; anywhere else it moves one position on.
\<close>

function WORD_RE_findall :: "pystr \<Rightarrow> pystr list" where
  "WORD_RE_findall [] = []"
| "WORD_RE_findall (c # cs) =
     (if word_start c \<and> takeWhile word_cont cs \<noteq> []
      then (c # takeWhile word_cont cs) # WORD_RE_findall (dropWhile word_cont cs)
      else WORD_RE_findall cs)"
  by pat_completeness auto
termination
  by (relation "measure length") (auto simp: length_dropWhile_le less_Suc_eq_le)

text \<open>
  The body of the first loop for one token: lowercase, strip trailing apostrophes
  (U+0027, then U+2019), then cut a trailing possessive marker.
\<close>

definition token_base :: "pystr \<Rightarrow> pystr" where
  "token_base tok =
     (let base = rstrip_chars (rstrip_chars (lower tok) [39]) [8217]
      in if endswith base [39, 115] \<or> endswith base [8217, 115]
         then take (length base - 2) base
         else base)"

fun cleaned_loop :: "pystr list \<Rightarrow> pystr list \<Rightarrow> pystr list" where
  "cleaned_loop [] cleaned = cleaned"
| "cleaned_loop (tok # toks) cleaned =
     (let base = token_base tok
      in if base \<in> STOPWORDS \<or> base \<in> COMMON_VERBS \<or> length base < 3
         then cleaned_loop toks cleaned
         else cleaned_loop toks (cleaned @ [base]))"

text \<open>
  \<open>Counter(cleaned)\<close> as an association list in the order of first occurrence, which is
  the order \<open>counts.items()\<close> iterates in.
\<close>

fun counter_incr :: "pystr \<Rightarrow> (pystr \<times> nat) list \<Rightarrow> (pystr \<times> nat) list" where
  "counter_incr w [] = [(w, 1)]"
| "counter_incr w ((k, n) # kvs) =
     (if k = w then (k, n + 1) # kvs else (k, n) # counter_incr w kvs)"

definition Counter :: "pystr list \<Rightarrow> (pystr \<times> nat) list" where
  "Counter xs = fold counter_incr xs []"

text \<open>
  The capitalised set of line 88 and the scoring loop. The scores are sums of an integer
  and of the constants 0.25 and 0.10; they are modelled as exact real numbers. Two such
  sums compare as the pairs (frequency, bonus) do, which is also how their double
  precision values compare for every frequency a text can reach.
\<close>

definition caps_of :: "pystr list \<Rightarrow> pystr set" where
  "caps_of tokens = set (map lower (filter (\<lambda>tok. isupper (take 1 tok) \<and> islower (drop 1 tok)) tokens))"

definition score_entry :: "pystr set \<Rightarrow> pystr \<times> nat \<Rightarrow> pystr \<times> real \<times> nat" where
  "score_entry caps = (\<lambda>(word, freq).
     (let bonus = (if word \<in> caps then 0.25 else 0.0);
          length_bonus = (if length word \<ge> 7 then 0.10 else 0.0);
          score = real freq + bonus + length_bonus
      in (word, score, freq)))"

definition sort_scored :: "(pystr \<times> real \<times> nat) list \<Rightarrow> (pystr \<times> real \<times> nat) list" where
  "sort_scored scored = sort_key (\<lambda>(w, s, f). (- s, - int f, w)) scored"

fun top_loop :: "(pystr \<times> real \<times> nat) list \<Rightarrow> pystr list \<Rightarrow> pystr list" where
  "top_loop [] top3 = top3"
| "top_loop ((w, s, f) # rest) top3 =
     (let top3' = (if w \<notin> set top3 then top3 @ [w] else top3)
      in if length top3' = 3 then top3' else top_loop rest top3')"

definition extract_top3_nouns_like :: "pystr \<Rightarrow> pystr list" where
  "extract_top3_nouns_like text =
     (if text = [] \<or> strip text = [] then []
      else let tokens = WORD_RE_findall text in
        if tokens = [] then []
        else let cleaned = cleaned_loop tokens [] in
          if cleaned = [] then []
          else let caps = caps_of tokens;
                   counts = Counter cleaned;
                   scored = map (score_entry caps) counts
               in top_loop (sort_scored scored) [])"

subsection \<open>The ranking as the specification words it\<close>

text \<open>
  The definitions of this subsection do not come from the code. They restate the scoring
  and ranking rules of the specification, so that the function above can be compared with
  them. The words "first letter uppercase, remaining letters lowercase" are read in three
  ways: \<open>spec_capitalized_literal\<close> asks that no letter after the first is uppercase,
  \<open>spec_capitalized_all_lower\<close> that every character after the first is a lowercase
  letter, and \<open>spec_capitalized\<close> that the characters after the first contain at least
  one letter and no uppercase letter.
\<close>

definition is_letter :: "nat \<Rightarrow> bool" where
  "is_letter c \<longleftrightarrow> is_upper_cp c \<or> is_lower_cp c"

fun spec_capitalized_literal :: "pystr \<Rightarrow> bool" where
  "spec_capitalized_literal [] = False"
| "spec_capitalized_literal (c # cs) =
     (is_upper_cp c \<and> list_all (\<lambda>x. is_letter x \<longrightarrow> is_lower_cp x) cs)"

fun spec_capitalized_all_lower :: "pystr \<Rightarrow> bool" where
  "spec_capitalized_all_lower [] = False"
| "spec_capitalized_all_lower (c # cs) = (is_upper_cp c \<and> list_all is_lower_cp cs)"

fun spec_capitalized :: "pystr \<Rightarrow> bool" where
  "spec_capitalized [] = False"
| "spec_capitalized (c # cs) =
     (is_upper_cp c \<and> list_ex is_letter cs \<and> list_all (\<lambda>x. is_letter x \<longrightarrow> is_lower_cp x) cs)"

definition spec_capitalized_set :: "(pystr \<Rightarrow> bool) \<Rightarrow> pystr list \<Rightarrow> pystr set" where
  "spec_capitalized_set capitalized tokens = set (map lower (filter capitalized tokens))"

definition spec_score :: "pystr set \<Rightarrow> pystr list \<Rightarrow> pystr \<Rightarrow> real" where
  "spec_score caps cleaned w =
     real (count_list cleaned w) + (if w \<in> caps then 0.25 else 0) + (if length w \<ge> 7 then 0.10 else 0)"

definition spec_ranks_before :: "pystr set \<Rightarrow> pystr list \<Rightarrow> pystr \<Rightarrow> pystr \<Rightarrow> bool" where
  "spec_ranks_before caps cleaned a b \<longleftrightarrow>
     spec_score caps cleaned a > spec_score caps cleaned b \<or>
     (spec_score caps cleaned a = spec_score caps cleaned b \<and>
      (count_list cleaned a > count_list cleaned b \<or>
       (count_list cleaned a = count_list cleaned b \<and> a < b)))"

text \<open>
  A ranking lists every distinct surviving token once, each token before all those it
  ranks before.
\<close>

definition spec_ranking :: "pystr set \<Rightarrow> pystr list \<Rightarrow> pystr list \<Rightarrow> bool" where
  "spec_ranking caps cleaned ranked \<longleftrightarrow>
     distinct ranked \<and> set ranked = set cleaned \<and> sorted_wrt (spec_ranks_before caps cleaned) ranked"

text \<open>Auxiliary notions for the proofs.\<close>

definition keep_base :: "pystr \<Rightarrow> bool" where
  "keep_base base \<longleftrightarrow> \<not> (base \<in> STOPWORDS \<or> base \<in> COMMON_VERBS \<or> length base < 3)"

definition count_in :: "(pystr \<times> nat) list \<Rightarrow> pystr \<Rightarrow> nat" where
  "count_in kvs w = (case map_of kvs w of None \<Rightarrow> 0 | Some n \<Rightarrow> n)"

definition rank_key :: "pystr set \<Rightarrow> pystr list \<Rightarrow> pystr \<Rightarrow> real \<times> int \<times> pystr" where
  "rank_key caps cleaned w = (- spec_score caps cleaned w, - int (count_list cleaned w), w)"

section \<open>Confidence heuristic (app/routers/analyze.py)\<close>

text \<open>
  Python's floats are modelled as real numbers. \<open>py_round3\<close> is \<open>round(x, 3)\<close>: the
  nearest multiple of one thousandth, a tie going to the even one.
\<close>

definition py_round3 :: "real \<Rightarrow> real" where
  "py_round3 x =
     (let y = x * 1000; f = \<lfloor>y\<rfloor>
      in real_of_int (if y - real_of_int f < 1 / 2 then f
                      else if y - real_of_int f > 1 / 2 then f + 1
                      else if even f then f else f + 1) / 1000)"

text \<open>The value \<open>conf\<close> of the function body, before rounding and clamping.\<close>

definition raw_confidence :: "pystr \<Rightarrow> bool \<Rightarrow> real" where
  "raw_confidence text llm_ok =
     (let n = max 1 (length (split text));
          length_bonus = min 0.30 (log 10 (real (n + 9)) / 10.0);
          llm_bonus = (if llm_ok then 0.10 else 0.0)
      in 0.55 + length_bonus + llm_bonus)"

definition confidence_heuristic :: "pystr \<Rightarrow> bool \<Rightarrow> real" where
  "confidence_heuristic text llm_ok =
     (let conf = raw_confidence text llm_ok
      in max 0.50 (min 0.98 (py_round3 conf)))"

text \<open>
  The word count as the specification words it, not taken from the code: the number of
  places where a maximal run of non-whitespace characters begins.
\<close>

fun word_starts :: "bool \<Rightarrow> pystr \<Rightarrow> nat" where
  "word_starts after_space [] = 0"
| "word_starts after_space (c # cs) =
     (if \<not> isspace c \<and> after_space then 1 else 0) + word_starts (isspace c) cs"

definition spec_word_count :: "pystr \<Rightarrow> nat" where
  "spec_word_count s = word_starts True s"

section \<open>In-memory storage (app/services/db.py)\<close>

text \<open>
  A row is the dictionary that \<open>_analyze_single\<close> builds and that the \<open>Analysis\<close> schema
  describes. The key \<open>id\<close> may be missing or hold \<open>None\<close>; both are \<open>None\<close> here. The
  fields \<open>row_id\<close>, \<open>row_keywords\<close> and \<open>row_text\<close> stand for the keys \<open>id\<close>, \<open>keywords\<close>
  and \<open>text\<close>.

  Dictionaries are mutable objects that the caller and the backend share by reference, so
  they live in a heap: a reference is an index into the list of all dictionaries allocated
  so far. \<open>db_rows\<close> is the list \<open>InMemoryDB._rows\<close> of references.
\<close>

record row =
  row_id :: "pystr option"
  title :: "pystr option"
  summary :: pystr
  topics :: "pystr list"
  sentiment :: pystr
  row_keywords :: "pystr list"
  confidence :: real
  row_text :: pystr

type_synonym addr = nat

record store =
  heap :: "row list"
  db_rows :: "addr list"

text \<open>\<open>dict(row)\<close>: a new dictionary with the entries of \<open>row\<close>.\<close>

definition dict_copy :: "addr \<Rightarrow> store \<Rightarrow> addr \<times> store" where
  "dict_copy a st = (length (heap st), st\<lparr>heap := heap st @ [heap st ! a]\<rparr>)"

text \<open>\<open>not item.get("id")\<close>: the key is missing, or its value is \<open>None\<close> or the empty string.\<close>

definition falsy_id :: "pystr option \<Rightarrow> bool" where
  "falsy_id v \<longleftrightarrow> v = None \<or> v = Some []"

text \<open>
  \<open>insert_analysis\<close>; the argument \<open>uuid\<close> is the string that \<open>str(uuid.uuid4())\<close>
  produces in this call.
\<close>

definition insert_analysis :: "pystr \<Rightarrow> addr \<Rightarrow> store \<Rightarrow> addr \<times> store" where
  "insert_analysis uuid row_ref st =
     (let (item, st1) = dict_copy row_ref st;
          st2 = (if falsy_id (row_id (heap st1 ! item))
                 then st1\<lparr>heap := (heap st1)[item := (heap st1 ! item)\<lparr>row_id := Some uuid\<rparr>]\<rparr>
                 else st1);
          st3 = st2\<lparr>db_rows := db_rows st2 @ [item]\<rparr>
      in (item, st3))"

text \<open>
  \<open>InMemoryDB.search\<close>: the query is lowercased, then trimmed. A blank query returns a
  copy of \<open>_rows\<close>; otherwise the loop collects, in order, the references to the rows of
  which a lowercased topic or keyword is the query. The entries are strings, so \<open>str(t)\<close>
  is \<open>t\<close>.

  The query comes from the request and the topics from the language model, so
  \<open>str.lower()\<close> is applied to arbitrary Unicode strings here. Its case mapping is a table
  of the Python runtime, with entries far beyond Latin-1 and some that change the
  length of the string. It is the parameter \<open>lw\<close> of the model: what is proved of
  \<open>search\<close> holds for whatever function stands there.
\<close>

fun search_loop ::
  "(pystr \<Rightarrow> pystr) \<Rightarrow> pystr \<Rightarrow> row list \<Rightarrow> addr list \<Rightarrow> addr list \<Rightarrow> addr list" where
  "search_loop lw q h [] results = results"
| "search_loop lw q h (r # rs) results =
     (let ts = map lw (topics (h ! r));
          ks = map lw (row_keywords (h ! r))
      in if q \<in> set ts \<or> q \<in> set ks
         then search_loop lw q h rs (results @ [r])
         else search_loop lw q h rs results)"

definition search :: "(pystr \<Rightarrow> pystr) \<Rightarrow> pystr \<Rightarrow> store \<Rightarrow> addr list" where
  "search lw topic st =
     (let q = strip (lw topic)
      in if q = [] then db_rows st
         else search_loop lw q (heap st) (db_rows st) [])"

text \<open>
  The match of the specification, not taken from the code: the query equals an entry of
  \<open>topics\<close> or \<open>keywords\<close> when case is ignored, whole entry against whole query. Two
  strings are equal with case ignored when their lowercase forms are equal.
\<close>

definition spec_matches :: "(pystr \<Rightarrow> pystr) \<Rightarrow> pystr \<Rightarrow> row \<Rightarrow> bool" where
  "spec_matches lw q r \<longleftrightarrow> (\<exists>e\<in>set (topics r) \<union> set (row_keywords r). lw e = lw q)"

text \<open>
  Two properties of \<open>str.lower()\<close> that the wording of the specification relies on.
  Lowercasing turns no blank string into a non-blank one and no non-blank string into a
  blank one: whitespace has no case, and no letter becomes whitespace or disappears. A
  lowercased and trimmed string is in lowercase already: lowercasing it again changes
  nothing.
\<close>

definition lower_keeps_blank :: "(pystr \<Rightarrow> pystr) \<Rightarrow> bool" where
  "lower_keeps_blank lw \<longleftrightarrow> (\<forall>s. (strip (lw s) = []) = (strip s = []))"

definition lower_fixes_lowered :: "(pystr \<Rightarrow> pystr) \<Rightarrow> bool" where
  "lower_fixes_lowered lw \<longleftrightarrow> (\<forall>s. lw (strip (lw s)) = strip (lw s))"

text \<open>Sample stores for the concrete instances further down.\<close>

definition demo_row :: "pystr list \<Rightarrow> pystr list \<Rightarrow> row" where
  "demo_row ts ks =
     \<lparr>row_id = None, title = None, summary = str ''s'', topics = ts, sentiment = str ''neutral'',
      row_keywords = ks, confidence = 0.65, row_text = str ''t''\<rparr>"

definition demo_store :: store where
  "demo_store =
     \<lparr>heap = [demo_row [str ''weather''] [str ''air''], demo_row [str ''AI''] [str ''model'']],
      db_rows = [0, 1]\<rparr>"

definition model_store :: store where
  "model_store = \<lparr>heap = [demo_row [str ''tech''] [str ''Model'']], db_rows = []\<rparr>"

text \<open>A store with the keyword of two Cyrillic small letters U+0438.\<close>

definition cyrillic_store :: store where
  "cyrillic_store = \<lparr>heap = [demo_row [str ''tech''] [[1080, 1080]]], db_rows = [0]\<rparr>"

definition blank_edge_store :: store where
  "blank_edge_store = \<lparr>heap = [demo_row [str ''tech''] [str '' ai'']], db_rows = []\<rparr>"

section \<open>The analyze endpoint (app/routers/analyze.py)\<close>

text \<open>
  The language model client and the UUID generator are outside the program. They are
  parameters that read and change a state \<open>'w\<close> of the outside world, so that two calls
  on the same text may end differently. A call that raises returns \<open>Inl\<close>.
\<close>

datatype exn = HTTPException nat pystr | LLMError

record meta =
  meta_title :: "pystr option"
  meta_topics :: "pystr list"
  meta_sentiment :: pystr

record 'w env =
  summarize :: "pystr \<Rightarrow> 'w \<Rightarrow> (exn + pystr) \<times> 'w"
  extract_metadata :: "pystr \<Rightarrow> 'w \<Rightarrow> (exn + meta) \<times> 'w"
  uuid4 :: "'w \<Rightarrow> pystr \<times> 'w"

text \<open>
  The \<open>try\<close> block of \<open>_analyze_single\<close> with its handler: the values of \<open>summary\<close>,
  \<open>title\<close>, \<open>topics\<close>, \<open>sentiment\<close> and \<open>llm_ok\<close> after it.
\<close>

definition llm_fallback :: "pystr \<times> pystr option \<times> pystr list \<times> pystr \<times> bool" where
  "llm_fallback =
     (str ''LLM unavailable. Summary could not be generated.'', None,
      [str ''general'', str ''unknown'', str ''llm-failure''], str ''neutral'', False)"

definition llm_try ::
  "'w env \<Rightarrow> pystr \<Rightarrow> 'w \<Rightarrow> (pystr \<times> pystr option \<times> pystr list \<times> pystr \<times> bool) \<times> 'w" where
  "llm_try e t w =
     (case summarize e t w of
        (Inl x, w1) \<Rightarrow> (llm_fallback, w1)
      | (Inr s, w1) \<Rightarrow>
          (case extract_metadata e t w1 of
             (Inl x, w2) \<Rightarrow> (llm_fallback, w2)
           | (Inr m, w2) \<Rightarrow> ((s, meta_title m, meta_topics m, meta_sentiment m, True), w2)))"

text \<open>Allocation of the dictionary literal \<open>row = {...}\<close>.\<close>

definition dict_new :: "row \<Rightarrow> store \<Rightarrow> addr \<times> store" where
  "dict_new r st = (length (heap st), st\<lparr>heap := heap st @ [r]\<rparr>)"

text \<open>
  \<open>_analyze_single\<close>, on the in-memory backend. The state is the store together with the
  outside world. A blank text raises the HTTP error 400 and leaves the state as it is.
  The returned \<open>Analysis\<close> object is built from the entries of the saved dictionary.
\<close>

definition analyze_single :: "'w env \<Rightarrow> pystr \<Rightarrow> store \<times> 'w \<Rightarrow> (exn + row) \<times> (store \<times> 'w)" where
  "analyze_single e text = (\<lambda>(st, w).
     (let t = strip text
      in if t = [] then (Inl (HTTPException 400 (str ''Empty input text.'')), (st, w))
         else
           (let kws = extract_top3_nouns_like t;
                ((summary_v, title_v, topics_v, sentiment_v, llm_ok), w1) = llm_try e t w;
                confidence_v = confidence_heuristic t llm_ok;
                (row_ref, st1) = dict_new
                   \<lparr>row_id = None, title = title_v, summary = summary_v, topics = topics_v,
                    sentiment = sentiment_v, row_keywords = kws, confidence = confidence_v,
                    row_text = t\<rparr> st;
                (u, w2) = uuid4 e w1;
                (saved, st2) = insert_analysis u row_ref st1
            in (Inr (heap st2 ! saved), (st2, w2)))))"

text \<open>
  The request body, with \<open>req_text\<close> and \<open>req_items\<close> for its fields \<open>text\<close> and
  \<open>items\<close>, and the endpoint \<open>analyze\<close> with its loop over the items. An exception of
  \<open>_analyze_single\<close> ends the loop and is the outcome of the request; what earlier items
  stored stays stored.
\<close>

record AnalyzeRequest =
  req_text :: "pystr option"
  req_items :: "pystr list option"

fun analyze_loop ::
  "'w env \<Rightarrow> pystr list \<Rightarrow> row list \<Rightarrow> store \<times> 'w \<Rightarrow> (exn + row list) \<times> (store \<times> 'w)" where
  "analyze_loop e [] results s = (Inr results, s)"
| "analyze_loop e (t # ts) results s =
     (case analyze_single e t s of
        (Inl x, s') \<Rightarrow> (Inl x, s')
      | (Inr a, s') \<Rightarrow> analyze_loop e ts (results @ [a]) s')"

definition analyze :: "'w env \<Rightarrow> AnalyzeRequest \<Rightarrow> store \<times> 'w \<Rightarrow> (exn + row list) \<times> (store \<times> 'w)" where
  "analyze e payload s =
     (case req_items payload of
        Some its \<Rightarrow>
          if length its = 0
          then (Inl (HTTPException 400 (str ''Batch 'items' must be a non-empty list of strings.'')), s)
          else analyze_loop e its [] s
      | None \<Rightarrow>
          (case req_text payload of
             Some t \<Rightarrow> analyze_loop e [t] [] s
           | None \<Rightarrow> (Inl (HTTPException 400 (str ''Provide 'text' or 'items' with data.'')), s)))"

text \<open>
  Whether the \<open>try\<close> block raises for text \<open>t\<close> in world \<open>w\<close>, and the state in which the
  loop of \<open>analyze\<close> reaches item number \<open>i\<close>.
\<close>

definition llm_fails :: "'w env \<Rightarrow> pystr \<Rightarrow> 'w \<Rightarrow> bool" where
  "llm_fails e t w =
     (case summarize e t w of
        (Inl x, w1) \<Rightarrow> True
      | (Inr s, w1) \<Rightarrow> (case extract_metadata e t w1 of (Inl x, w2) \<Rightarrow> True | (Inr m, w2) \<Rightarrow> False))"

definition state_before :: "'w env \<Rightarrow> pystr list \<Rightarrow> store \<times> 'w \<Rightarrow> nat \<Rightarrow> store \<times> 'w" where
  "state_before e its s i = snd (analyze_loop e (take i its) [] s)"

text \<open>
  The texts a request asks to analyse, the record a failed language model call leaves, and
  a sample client whose first call fails and whose later calls succeed (its world is the
  number of calls made so far).
\<close>

definition request_items :: "AnalyzeRequest \<Rightarrow> pystr list" where
  "request_items payload =
     (case req_items payload of
        Some its \<Rightarrow> its
      | None \<Rightarrow> (case req_text payload of Some t \<Rightarrow> [t] | None \<Rightarrow> []))"

definition is_fallback :: "pystr \<Rightarrow> row \<Rightarrow> bool" where
  "is_fallback t a \<longleftrightarrow>
     summary a = str ''LLM unavailable. Summary could not be generated.'' \<and>
     title a = None \<and>
     topics a = [str ''general'', str ''unknown'', str ''llm-failure''] \<and>
     sentiment a = str ''neutral'' \<and>
     confidence a = confidence_heuristic t False"

definition demo_env :: "nat env" where
  "demo_env =
     \<lparr>summarize = (\<lambda>t w. (if w = 0 then Inl LLMError else Inr (str ''A summary.''), w + 1)),
      extract_metadata = (\<lambda>t w.
        (Inr \<lparr>meta_title = None,
              meta_topics = [str ''technology'', str ''ai'', str ''engineering''],
              meta_sentiment = str ''neutral''\<rparr>, w + 1)),
      uuid4 = (\<lambda>w. (str ''u-1'', w + 1))\<rparr>"

section \<open>Properties of the keyword extraction\<close>

subsection \<open>The loops\<close>

lemma cleaned_loop_filter:
  "cleaned_loop toks cleaned = cleaned @ filter keep_base (map token_base toks)"
  by (induction toks arbitrary: cleaned) (simp_all add: Let_def keep_base_def)

lemma lower_cp_idem: "lower_cp (lower_cp c) = lower_cp c"
  by (auto simp: lower_cp_def is_upper_cp_def)

lemma lower_fixed_iff: "lower w = w \<longleftrightarrow> (\<forall>c\<in>set w. lower_cp c = c)"
  by (simp add: lower_def map_idI map_eq_conv[where g=id, simplified] list.map_ident_strong)

lemma set_rstrip_chars: "set (rstrip_chars s chars) \<subseteq> set s"
proof -
  have "set (dropWhile (\<lambda>c. c \<in> set chars) (rev s)) \<subseteq> set (rev s)"
    by (rule set_dropWhileD[THEN subsetI]) 
  then show ?thesis by (simp add: rstrip_chars_def)
qed

lemma set_token_base: "set (token_base tok) \<subseteq> set (lower tok)"
proof -
  let ?b = "rstrip_chars (rstrip_chars (lower tok) [39]) [8217]"
  have b: "set ?b \<subseteq> set (lower tok)"
    using set_rstrip_chars[of "rstrip_chars (lower tok) [39]" "[8217]"]
      set_rstrip_chars[of "lower tok" "[39]"] by blast
  have "set (take (length ?b - 2) ?b) \<subseteq> set ?b"
    by (rule set_take_subset)
  with b show ?thesis
    by (auto simp: token_base_def Let_def)
qed

lemma lower_token_base: "lower (token_base tok) = token_base tok"
proof -
  have "\<forall>c\<in>set (token_base tok). lower_cp c = c"
    using set_token_base[of tok] by (auto simp: lower_def lower_cp_idem)
  then show ?thesis by (simp add: lower_fixed_iff)
qed

text \<open>
  Every token is made of ASCII letters, hyphens and apostrophes. Python's \<open>lower\<close>,
  \<open>isupper\<close> and \<open>islower\<close> therefore act on tokens as the Basic Latin tables say,
  and the two steps of the loop body that look for U+2019 never apply.
\<close>

lemma findall_token_shape:
  "tok \<in> set (WORD_RE_findall s) \<Longrightarrow>
     \<exists>c cs. tok = c # cs \<and> word_start c \<and> cs \<noteq> [] \<and> (\<forall>x\<in>set cs. word_cont x)"
proof (induction s rule: WORD_RE_findall.induct)
  case 1
  then show ?case by simp
next
  case (2 c cs)
  then show ?case
    by (auto split: if_splits dest: set_takeWhileD)
qed

lemma token_ascii:
  assumes "tok \<in> set (WORD_RE_findall s)"
  shows "\<forall>x\<in>set tok. x < 128"
proof -
  from findall_token_shape[OF assms] obtain c cs where
    "tok = c # cs" "word_start c" "\<forall>x\<in>set cs. word_cont x" by blast
  then show ?thesis by (auto simp: word_start_def word_cont_def)
qed

lemma rstrip_chars_absent: "set chars \<inter> set s = {} \<Longrightarrow> rstrip_chars s chars = s"
proof -
  assume a: "set chars \<inter> set s = {}"
  have "dropWhile (\<lambda>c. c \<in> set chars) (rev s) = rev s"
  proof (cases "rev s")
    case Nil
    then show ?thesis by simp
  next
    case (Cons x xs)
    then have "x \<in> set s" by (metis list.set_intros(1) set_rev)
    with a have "x \<notin> set chars" by auto
    with Cons show ?thesis by simp
  qed
  then show ?thesis by (simp add: rstrip_chars_def)
qed

lemma endswith_subset: "endswith s suffix \<Longrightarrow> set suffix \<subseteq> set s"
  unfolding endswith_def by (metis set_drop_subset)

lemma token_base_ascii:
  assumes "tok \<in> set (WORD_RE_findall s)"
  shows "token_base tok =
           (let base = rstrip_chars (lower tok) [39]
            in if endswith base [39, 115] then take (length base - 2) base else base)"
proof -
  have low: "\<forall>x\<in>set (lower tok). x < 160"
    using token_ascii[OF assms] by (auto simp: lower_def lower_cp_def)
  let ?b = "rstrip_chars (lower tok) [39]"
  have b: "\<forall>x\<in>set ?b. x < 160"
    using low set_rstrip_chars[of "lower tok" "[39]"] by blast
  then have "8217 \<notin> set ?b" by auto
  then have 1: "rstrip_chars ?b [8217] = ?b"
    by (simp add: rstrip_chars_absent)
  have 2: "\<not> endswith ?b [8217, 115]"
    using endswith_subset[of ?b "[8217, 115]"] \<open>8217 \<notin> set ?b\<close> by auto
  show ?thesis
    by (simp add: token_base_def Let_def 1 2)
qed

lemma top_loop_length: "length top3 < 3 \<Longrightarrow> length (top_loop xs top3) \<le> 3"
proof (induction xs top3 rule: top_loop.induct)
  case (1 top3)
  then show ?case by simp
next
  case (2 w s f rest top3)
  let ?t = "if w \<notin> set top3 then top3 @ [w] else top3"
  show ?case
  proof (cases "length ?t = 3")
    case True
    then show ?thesis by (simp add: Let_def)
  next
    case False
    with "2.prems" have "length ?t < 3" by (auto split: if_splits)
    with False "2.IH"[of ?t] show ?thesis by (simp add: Let_def)
  qed
qed

lemma top_loop_distinct: "distinct top3 \<Longrightarrow> distinct (top_loop xs top3)"
  by (induction xs top3 rule: top_loop.induct) (auto simp: Let_def)

lemma top_loop_subset: "set (top_loop xs top3) \<subseteq> set top3 \<union> fst ` set xs"
  by (induction xs top3 rule: top_loop.induct) (auto simp: Let_def split: if_splits)

lemma top_loop_take:
  "length top3 < 3 \<Longrightarrow> distinct (top3 @ map fst xs) \<Longrightarrow> top_loop xs top3 = take 3 (top3 @ map fst xs)"
proof (induction xs top3 rule: top_loop.induct)
  case (1 top3)
  then show ?case by simp
next
  case (2 w s f rest top3)
  from "2.prems" have w: "w \<notin> set top3" and d: "distinct ((top3 @ [w]) @ map fst rest)"
    by auto
  show ?case
  proof (cases "length (top3 @ [w]) = 3")
    case True
    with w show ?thesis by (simp add: Let_def)
  next
    case False
    with "2.prems" have "length (top3 @ [w]) < 3" by simp
    with False w d "2.IH"[of "top3 @ [w]"] show ?thesis by (simp add: Let_def)
  qed
qed


lemma counter_incr_keys: "set (map fst (counter_incr w kvs)) = insert w (set (map fst kvs))"
  by (induction w kvs rule: counter_incr.induct) auto

lemma counter_incr_distinct:
  "distinct (map fst kvs) \<Longrightarrow> distinct (map fst (counter_incr w kvs))"
proof (induction w kvs rule: counter_incr.induct)
  case (1 w)
  then show ?case by simp
next
  case (2 w k n kvs)
  then show ?case
    using counter_incr_keys[of w kvs] by (auto simp del: counter_incr_keys)
qed

lemma counter_incr_map_of:
  "map_of (counter_incr w kvs) v =
     (if v = w then Some (case map_of kvs w of None \<Rightarrow> 1 | Some n \<Rightarrow> n + 1) else map_of kvs v)"
  by (induction w kvs rule: counter_incr.induct) auto

lemma fold_counter_keys:
  "set (map fst (fold counter_incr xs kvs)) = set xs \<union> set (map fst kvs)"
  by (induction xs arbitrary: kvs) (auto simp: counter_incr_keys simp del: set_map)

lemma fold_counter_distinct:
  "distinct (map fst kvs) \<Longrightarrow> distinct (map fst (fold counter_incr xs kvs))"
  by (induction xs arbitrary: kvs) (simp_all add: counter_incr_distinct)

lemma fold_counter_map_of:
  "map_of (fold counter_incr xs kvs) w =
     (if w \<in> set xs \<or> w \<in> fst ` set kvs then Some (count_in kvs w + count_list xs w) else None)"
proof (induction xs arbitrary: kvs)
  case Nil
  then show ?case
    by (auto simp: count_in_def map_of_eq_None_iff split: option.splits)
next
  case (Cons x xs)
  have keys: "fst ` set (counter_incr x kvs) = insert x (fst ` set kvs)"
    using counter_incr_keys[of x kvs] by simp
  have cnt: "count_in (counter_incr x kvs) w = (if w = x then count_in kvs w + 1 else count_in kvs w)"
    by (simp add: count_in_def counter_incr_map_of split: option.splits)
  show ?case
  proof (cases "w = x")
    case True
    with Cons.IH[of "counter_incr x kvs"] keys cnt show ?thesis by simp
  next
    case False
    with Cons.IH[of "counter_incr x kvs"] keys cnt show ?thesis by auto
  qed
qed

lemma Counter_keys: "set (map fst (Counter xs)) = set xs"
  using fold_counter_keys[of xs "[]"] by (simp add: Counter_def)

lemma Counter_distinct: "distinct (map fst (Counter xs))"
  using fold_counter_distinct[of "[]" xs] by (simp add: Counter_def)

lemma Counter_entry: "(w, n) \<in> set (Counter xs) \<Longrightarrow> n = count_list xs w"
proof -
  assume a: "(w, n) \<in> set (Counter xs)"
  then have "map_of (Counter xs) w = Some n"
    using Counter_distinct[of xs] by simp
  moreover have "w \<in> set xs"
    using a Counter_keys[of xs] by force
  ultimately show ?thesis
    using fold_counter_map_of[of xs "[]" w] by (simp add: Counter_def count_in_def)
qed


lemma rank_key_less: "rank_key caps cleaned a < rank_key caps cleaned b \<longleftrightarrow> spec_ranks_before caps cleaned a b"
  by (auto simp: rank_key_def spec_ranks_before_def less_prod_def)

lemma rank_key_inj: "inj (rank_key caps cleaned)"
  by (rule injI) (simp add: rank_key_def)

lemma upper_not_lower: "is_upper_cp c \<Longrightarrow> \<not> is_lower_cp c"
  by (auto simp: is_upper_cp_def is_lower_cp_def)

lemma caps_test_eq: "(isupper (take 1 tok) \<and> islower (drop 1 tok)) = spec_capitalized tok"
proof (cases tok)
  case Nil
  then show ?thesis by (simp add: isupper_def)
next
  case (Cons c cs)
  have 1: "list_all (\<lambda>x. is_letter x \<longrightarrow> is_lower_cp x) cs = list_all (\<lambda>c. \<not> is_upper_cp c) cs"
    by (rule arg_cong[where f="\<lambda>p. list_all p cs"]) (auto simp: is_letter_def upper_not_lower)
  have 2: "list_all (\<lambda>c. \<not> is_upper_cp c) cs \<Longrightarrow> list_ex is_letter cs = list_ex is_lower_cp cs"
    by (induction cs) (auto simp: is_letter_def)
  show ?thesis using Cons 1 2
    by (auto simp: isupper_def islower_def upper_not_lower)
qed

lemma caps_of_spec: "caps_of tokens = spec_capitalized_set spec_capitalized tokens"
  by (simp only: caps_of_def spec_capitalized_set_def caps_test_eq)

lemma sorted_distinct_strict:
  "sorted (map k xs) \<Longrightarrow> distinct xs \<Longrightarrow> inj k \<Longrightarrow> sorted_wrt (\<lambda>a b. k a < k b) xs"
proof (induction xs)
  case Nil
  then show ?case by simp
next
  case (Cons x xs)
  then show ?case by (auto simp: inj_def order_less_le)
qed

lemma strict_ranking_unique:
  assumes "sorted_wrt (\<lambda>a b. k a < k b) xs" "sorted_wrt (\<lambda>a b. k a < k b) ys"
    and "set xs = set ys" and "inj (k :: 'a \<Rightarrow> 'b::linorder)"
  shows "xs = ys"
proof -
  have sx: "sorted_wrt (<) (map k xs)" and sy: "sorted_wrt (<) (map k ys)"
    using assms(1,2) by (simp_all add: sorted_wrt_map)
  have "map k xs = map k ys"
  proof (rule sorted_distinct_set_unique)
    show "sorted (map k xs)" "distinct (map k xs)" using sx by (simp_all add: strict_sorted_iff)
    show "sorted (map k ys)" "distinct (map k ys)" using sy by (simp_all add: strict_sorted_iff)
    show "set (map k xs) = set (map k ys)" using assms(3) by simp
  qed
  with assms(4) show ?thesis by simp
qed


lemma strip_empty_iff: "strip s = [] \<longleftrightarrow> (\<forall>c\<in>set s. isspace c)"
proof -
  have "(\<forall>x\<in>set (dropWhile isspace s). isspace x) \<longleftrightarrow> (\<forall>c\<in>set s. isspace c)"
    by (induction s) auto
  then show ?thesis
    by (simp add: strip_def dropWhile_eq_Nil_conv)
qed

lemma distinct_fst_sort_key:
  "distinct (map fst xs) \<Longrightarrow> distinct (map fst (sort_key k xs))"
  by (simp add: distinct_map)

lemma findall_no_start: "\<forall>c\<in>set s. \<not> word_start c \<Longrightarrow> WORD_RE_findall s = []"
  by (induction s) simp_all

lemma space_not_start: "isspace c \<Longrightarrow> \<not> word_start c"
  by (auto simp: isspace_def word_start_def)

lemma findall_blank: "strip s = [] \<Longrightarrow> WORD_RE_findall s = []"
  by (rule findall_no_start) (simp add: strip_empty_iff space_not_start)

lemma fst_score_entry: "fst (score_entry caps e) = fst e"
  by (cases e) (simp add: score_entry_def Let_def)

lemma scored_entry:
  assumes "e \<in> set (map (score_entry (caps_of tokens)) (Counter cleaned))"
  shows "(\<lambda>(w, s, f). (- s, - int f, w)) e
           = rank_key (spec_capitalized_set spec_capitalized tokens) cleaned (fst e)"
proof -
  from assms obtain w n where wn: "(w, n) \<in> set (Counter cleaned)"
    and e: "e = score_entry (caps_of tokens) (w, n)" by auto
  from wn have n: "n = count_list cleaned w" by (rule Counter_entry)
  show ?thesis
    by (simp add: e n score_entry_def Let_def rank_key_def spec_score_def caps_of_spec)
qed

lemma extract_ranked:
  fixes t :: pystr
  defines "tokens \<equiv> WORD_RE_findall t"
  defines "cleaned \<equiv> cleaned_loop tokens []"
  defines "caps \<equiv> spec_capitalized_set spec_capitalized tokens"
  defines "ranked \<equiv> map fst (sort_scored (map (score_entry (caps_of tokens)) (Counter cleaned)))"
  shows "spec_ranking caps cleaned ranked" and "extract_top3_nouns_like t = take 3 ranked"
proof -
  let ?scored = "map (score_entry (caps_of tokens)) (Counter cleaned)"
  let ?k = "\<lambda>(w, s, f). (- s, - int f, w) :: real \<times> int \<times> pystr"
  have fsts: "map fst ?scored = map fst (Counter cleaned)"
    by (simp add: fst_score_entry)
  have "distinct (map fst ?scored)"
    using Counter_distinct[of cleaned] by (simp only: fsts)
  then have "distinct (map fst (sort_scored ?scored))"
    unfolding sort_scored_def by (rule distinct_fst_sort_key)
  then have d: "distinct ranked"
    by (simp only: ranked_def)
  have "set (sort_scored ?scored) = set ?scored"
    by (simp add: sort_scored_def)
  then have "set ranked = set (map fst ?scored)"
    unfolding ranked_def by (simp only: set_map)
  then have s: "set ranked = set cleaned"
    using Counter_keys[of cleaned] by (simp only: fsts)
  have "map ?k (sort_scored ?scored) = map (rank_key caps cleaned) ranked"
    unfolding ranked_def caps_def map_map
  proof (rule map_cong[OF refl])
    fix e assume "e \<in> set (sort_scored ?scored)"
    then have "e \<in> set ?scored" by (simp add: sort_scored_def)
    then show "?k e = (rank_key (spec_capitalized_set spec_capitalized tokens) cleaned \<circ> fst) e"
      using scored_entry[of e tokens cleaned] by simp
  qed
  moreover have "sorted (map ?k (sort_scored ?scored))"
    by (simp add: sort_scored_def)
  ultimately have "sorted (map (rank_key caps cleaned) ranked)" by simp
  then have "sorted_wrt (\<lambda>a b. rank_key caps cleaned a < rank_key caps cleaned b) ranked"
    using d rank_key_inj by (rule sorted_distinct_strict)
  then have sw: "sorted_wrt (spec_ranks_before caps cleaned) ranked"
    by (simp add: rank_key_less)
  show "spec_ranking caps cleaned ranked"
    using d s sw by (simp add: spec_ranking_def)
  show "extract_top3_nouns_like t = take 3 ranked"
  proof (cases "t = [] \<or> strip t = [] \<or> tokens = [] \<or> cleaned = []")
    case True
    then have "cleaned = []"
      using findall_blank[of t] by (auto simp: tokens_def cleaned_def strip_def)
    then have "ranked = []" using s by simp
    with True show ?thesis
      by (auto simp: extract_top3_nouns_like_def Let_def tokens_def cleaned_def)
  next
    case False
    have "top_loop (sort_scored ?scored) [] = take 3 ([] @ map fst (sort_scored ?scored))"
      by (rule top_loop_take) (use d in \<open>simp_all add: ranked_def\<close>)
    with False show ?thesis
      by (simp add: extract_top3_nouns_like_def Let_def tokens_def cleaned_def ranked_def)
  qed
qed

lemma spec_ranking_unique:
  "spec_ranking caps cleaned xs \<Longrightarrow> spec_ranking caps cleaned ys \<Longrightarrow> xs = ys"
proof -
  assume x: "spec_ranking caps cleaned xs" and y: "spec_ranking caps cleaned ys"
  have "sorted_wrt (\<lambda>a b. rank_key caps cleaned a < rank_key caps cleaned b) xs"
       "sorted_wrt (\<lambda>a b. rank_key caps cleaned a < rank_key caps cleaned b) ys"
    using x y by (simp_all add: spec_ranking_def rank_key_less)
  moreover have "set xs = set ys" using x y by (simp add: spec_ranking_def)
  ultimately show ?thesis using rank_key_inj by (rule strict_ranking_unique)
qed

lemma extract_subset_cleaned:
  "set (extract_top3_nouns_like t) \<subseteq> set (cleaned_loop (WORD_RE_findall t) [])"
proof -
  let ?tokens = "WORD_RE_findall t"
  let ?cleaned = "cleaned_loop ?tokens []"
  let ?scored = "map (score_entry (caps_of ?tokens)) (Counter ?cleaned)"
  have "set (sort_scored ?scored) = set ?scored"
    by (simp add: sort_scored_def)
  then have "fst ` set (sort_scored ?scored) = set (map fst ?scored)"
    by (simp only: set_map)
  also have "map fst ?scored = map fst (Counter ?cleaned)"
    by (simp add: fst_score_entry)
  finally have "fst ` set (sort_scored ?scored) = set ?cleaned"
    by (simp only: Counter_keys)
  with top_loop_subset[of "sort_scored ?scored" "[]"]
  have "set (top_loop (sort_scored ?scored) []) \<subseteq> set ?cleaned" by simp
  then show ?thesis
    by (auto simp: extract_top3_nouns_like_def Let_def)
qed


text \<open>Unfolding rules that evaluate the keyword extraction on a given text.\<close>

lemmas ev = str_def isspace_def strip_def rstrip_chars_def endswith_def is_upper_cp_def is_lower_cp_def lower_cp_def lower_def
  isupper_def islower_def STOPWORDS_def COMMON_VERBS_def word_start_def word_cont_def token_base_def Counter_def caps_of_def
  score_entry_def sort_scored_def extract_top3_nouns_like_def Let_def

lemmas sv = spec_ranking_def spec_ranks_before_def spec_score_def spec_capitalized_set_def is_letter_def


subsection \<open>Scoring and ranking\<close>

text \<open>The keyword extraction on the text \<open>B-- Don't aaa\<close>, step by step.\<close>

lemma edge_text_tokens:
  "WORD_RE_findall (str ''B-- Don't aaa'') = [str ''B--'', str ''Don't'', str ''aaa'']"
  by (simp add: str_def word_start_def word_cont_def)

lemma edge_text_cleaned:
  "cleaned_loop [str ''B--'', str ''Don't'', str ''aaa''] [] = [str ''b--'', str ''don't'', str ''aaa'']"
  by (simp add: ev)

lemma edge_text_extract:
  "extract_top3_nouns_like (str ''B-- Don't aaa'') = [str ''don't'', str ''aaa'', str ''b--'']"
  by (simp add: extract_top3_nouns_like_def edge_text_tokens edge_text_cleaned)
     (simp add: ev)

text \<open>
  Claim C1, read as written. The claim builds the capitalised set from the tokens "whose
  first letter is uppercase and remaining letters lowercase". The code asks
  \<open>tok[1:].islower()\<close>, which holds when the rest of the token has at least one letter
  and no uppercase letter. On the text \<open>B-- Don't aaa\<close> the code gives the bonus 0.25 to
  \<open>don't\<close> alone and returns \<open>don't, aaa, b--\<close>. If the words of the claim mean that no
  letter after the first is uppercase, \<open>b--\<close> earns the bonus as well and the ranking
  starts \<open>b--, don't, aaa\<close>. If they mean that all the remaining characters are lowercase
  letters, no token earns it and the ranking is \<open>aaa, b--, don't\<close>. Neither is what the
  code returns.
\<close>

theorem extract_top3_literal_counterexample:
  "spec_ranking (spec_capitalized_set spec_capitalized_literal (WORD_RE_findall (str ''B-- Don't aaa'')))
     (cleaned_loop (WORD_RE_findall (str ''B-- Don't aaa'')) [])
     [str ''b--'', str ''don't'', str ''aaa''] \<and>
   extract_top3_nouns_like (str ''B-- Don't aaa'') \<noteq> take 3 [str ''b--'', str ''don't'', str ''aaa''] \<and>
   spec_ranking (spec_capitalized_set spec_capitalized_all_lower (WORD_RE_findall (str ''B-- Don't aaa'')))
     (cleaned_loop (WORD_RE_findall (str ''B-- Don't aaa'')) [])
     [str ''aaa'', str ''b--'', str ''don't''] \<and>
   extract_top3_nouns_like (str ''B-- Don't aaa'') \<noteq> take 3 [str ''aaa'', str ''b--'', str ''don't''] \<and>
   extract_top3_nouns_like (str ''B-- Don't aaa'') = [str ''don't'', str ''aaa'', str ''b--'']"
  unfolding edge_text_tokens edge_text_cleaned edge_text_extract
  by (simp add: sv str_def is_upper_cp_def is_lower_cp_def lower_cp_def lower_def insert_commute)

text \<open>
  Claim C1, as amended: the capitalised set holds the lowercase forms of the tokens whose
  first letter is uppercase and whose remainder contains at least one letter and no
  uppercase letter. Each distinct surviving token scores its frequency, plus 0.25 if it
  is in that set, plus 0.10 if it has at least 7 characters. The tokens are ranked by
  score descending, then frequency descending, then lexicographically ascending. Such a
  ranking of the distinct surviving tokens exists, and \<open>extract_top3_nouns_like\<close> returns
  the first three entries of any such ranking (there is only one).
\<close>

theorem extract_top3_ranking:
  "(\<exists>ranked. spec_ranking (spec_capitalized_set spec_capitalized (WORD_RE_findall text))
       (cleaned_loop (WORD_RE_findall text) []) ranked) \<and>
   (\<forall>ranked. spec_ranking (spec_capitalized_set spec_capitalized (WORD_RE_findall text))
       (cleaned_loop (WORD_RE_findall text) []) ranked
      \<longrightarrow> extract_top3_nouns_like text = take 3 ranked)"
  using extract_ranked[of "text"] spec_ranking_unique by blast

theorem extract_top3_ranking_witness:
  "spec_ranking (spec_capitalized_set spec_capitalized (WORD_RE_findall (str ''Bob aaa B--'')))
     (cleaned_loop (WORD_RE_findall (str ''Bob aaa B--'')) []) [str ''bob'', str ''aaa'', str ''b--''] \<and>
   extract_top3_nouns_like (str ''Bob aaa B--'') = take 3 [str ''bob'', str ''aaa'', str ''b--'']"
proof -
  have r: "spec_ranking (spec_capitalized_set spec_capitalized (WORD_RE_findall (str ''Bob aaa B--'')))
     (cleaned_loop (WORD_RE_findall (str ''Bob aaa B--'')) []) [str ''bob'', str ''aaa'', str ''b--'']"
    by (simp add: ev sv)
  from r extract_top3_ranking[of "str ''Bob aaa B--''"] show ?thesis by blast
qed

subsection \<open>Size and shape of the result\<close>

text \<open>
  Claim C5: for every input, \<open>extract_top3_nouns_like\<close> returns at most three tokens, no
  token twice, and it returns the empty list when the input is empty or consists of
  whitespace only.
\<close>

theorem extract_at_most_three_distinct:
  "length (extract_top3_nouns_like text) \<le> 3 \<and> distinct (extract_top3_nouns_like text) \<and>
   (text = [] \<or> (\<forall>c\<in>set text. isspace c) \<longrightarrow> extract_top3_nouns_like text = [])"
proof (intro conjI impI)
  show "length (extract_top3_nouns_like text) \<le> 3"
    using top_loop_length[of "[]"] by (simp add: extract_top3_nouns_like_def Let_def)
  show "distinct (extract_top3_nouns_like text)"
    using top_loop_distinct[of "[]"] by (simp add: extract_top3_nouns_like_def Let_def)
  assume "text = [] \<or> (\<forall>c\<in>set text. isspace c)"
  then have "text = [] \<or> strip text = []"
    by (simp add: strip_empty_iff)
  then show "extract_top3_nouns_like text = []"
    by (simp add: extract_top3_nouns_like_def)
qed

theorem extract_at_most_three_distinct_witness:
  "list_all isspace (str ''  '') \<and> extract_top3_nouns_like (str ''  '') = [] \<and>
   length (extract_top3_nouns_like (str ''Bob aaa B-- zzz'')) \<le> 3 \<and>
   distinct (extract_top3_nouns_like (str ''Bob aaa B-- zzz''))"
  using extract_at_most_three_distinct[of "str ''  ''"]
    extract_at_most_three_distinct[of "str ''Bob aaa B-- zzz''"]
  by (simp add: str_def isspace_def)


text \<open>
  Claim C9: every returned token is its own lowercase form, has at least three
  characters, and is neither a stopword nor a common verb.
\<close>

theorem extract_tokens_filtered:
  "w \<in> set (extract_top3_nouns_like text) \<Longrightarrow>
     lower w = w \<and> 3 \<le> length w \<and> w \<notin> STOPWORDS \<and> w \<notin> COMMON_VERBS"
proof -
  assume "w \<in> set (extract_top3_nouns_like text)"
  then have "w \<in> set (cleaned_loop (WORD_RE_findall text) [])"
    using extract_subset_cleaned by blast
  then obtain tok where w: "w = token_base tok" and k: "keep_base w"
    by (auto simp: cleaned_loop_filter)
  from w have "lower w = w" by (simp add: lower_token_base)
  with k show ?thesis by (auto simp: keep_base_def)
qed

theorem extract_tokens_filtered_witness:
  "str ''model'' \<in> set (extract_top3_nouns_like (str ''The Model'')) \<and>
   lower (str ''model'') = str ''model'' \<and> 3 \<le> length (str ''model'') \<and>
   str ''model'' \<notin> STOPWORDS \<and> str ''model'' \<notin> COMMON_VERBS"
proof -
  have m: "str ''model'' \<in> set (extract_top3_nouns_like (str ''The Model''))"
    by (simp add: ev)
  from m extract_tokens_filtered[OF m] show ?thesis by simp
qed

text \<open>
  The example of the specification: \<open>model\<close> occurs three times and comes first, before
  \<open>developers\<close> (twice, once capitalised) and \<open>powerful\<close> (once, seven letters or more).
\<close>

lemma extract_example_openai:
  "extract_top3_nouns_like
     (str ''OpenAI released a powerful model. The model helps developers build AI products. Developers love the model.'')
   = [str ''model'', str ''developers'', str ''powerful'']"
  by (simp add: ev)

section \<open>Properties of the confidence heuristic\<close>

lemma py_round3_cases:
  "\<exists>m::int. py_round3 x = real_of_int m / 1000 \<and> (m = \<lfloor>x * 1000\<rfloor> \<or> m = \<lfloor>x * 1000\<rfloor> + 1)"
  by (auto simp: py_round3_def Let_def)

lemma py_round3_of_int: "py_round3 (real_of_int m / 1000) = real_of_int m / 1000"
  by (simp add: py_round3_def Let_def)

lemma py_round3_near:
  assumes "real_of_int k - 1 / 2 < x * 1000" and "x * 1000 < real_of_int k + 1 / 2"
  shows "py_round3 x = real_of_int k / 1000"
proof (cases "x * 1000 < real_of_int k")
  case True
  with assms have "\<lfloor>x * 1000\<rfloor> = k - 1" by linarith
  with assms True show ?thesis by (simp add: py_round3_def Let_def)
next
  case False
  with assms have "\<lfloor>x * 1000\<rfloor> = k" by linarith
  with assms False show ?thesis by (simp add: py_round3_def Let_def)
qed

lemma py_round3_lower:
  assumes "real_of_int k / 1000 \<le> x"
  shows "real_of_int k / 1000 \<le> py_round3 x"
proof -
  from assms have "real_of_int k \<le> x * 1000" by simp
  then have "k \<le> \<lfloor>x * 1000\<rfloor>" by linarith
  moreover obtain m where "py_round3 x = real_of_int m / 1000" "m = \<lfloor>x * 1000\<rfloor> \<or> m = \<lfloor>x * 1000\<rfloor> + 1"
    using py_round3_cases by blast
  ultimately show ?thesis by auto
qed

lemma py_round3_upper:
  assumes "x \<le> real_of_int k / 1000"
  shows "py_round3 x \<le> real_of_int k / 1000"
proof (cases "x * 1000 = real_of_int k")
  case True
  then have x: "x = real_of_int k / 1000" by simp
  show ?thesis unfolding x py_round3_of_int by simp
next
  case False
  with assms have "x * 1000 < real_of_int k" by simp
  then have "\<lfloor>x * 1000\<rfloor> + 1 \<le> k" by linarith
  moreover obtain m where "py_round3 x = real_of_int m / 1000" "m = \<lfloor>x * 1000\<rfloor> \<or> m = \<lfloor>x * 1000\<rfloor> + 1"
    using py_round3_cases by blast
  ultimately show ?thesis by auto
qed

lemma length_bonus_bounds:
  fixes n :: nat
  assumes "1 \<le> n"
  shows "1 / 10 \<le> min 0.30 (log 10 (real (n + 9)) / 10.0)" and "min 0.30 (log 10 (real (n + 9)) / 10.0) \<le> 3 / 10"
proof -
  from assms have "log 10 10 \<le> log 10 (real (n + 9))"
    by (subst log_le_cancel_iff) simp_all
  then show "1 / 10 \<le> min 0.30 (log 10 (real (n + 9)) / 10.0)" by simp
  show "min 0.30 (log 10 (real (n + 9)) / 10.0) \<le> 3 / 10" by simp
qed

lemma raw_confidence_bounds:
  "65 / 100 \<le> raw_confidence t ok" "raw_confidence t ok \<le> 95 / 100"
proof -
  define lb :: real where "lb = min 0.30 (log 10 (real (max 1 (length (split t)) + 9)) / 10.0)"
  have "1 \<le> max 1 (length (split t))" by simp
  then have 1: "1 / 10 \<le> lb" and 2: "lb \<le> 3 / 10"
    unfolding lb_def by (rule length_bonus_bounds)+
  have raw: "raw_confidence t ok = 0.55 + lb + (if ok then 0.10 else 0.0)"
    unfolding lb_def by (simp only: raw_confidence_def Let_def)
  show "65 / 100 \<le> raw_confidence t ok" using 1 by (simp add: raw)
  show "raw_confidence t ok \<le> 95 / 100" using 2 by (simp add: raw)
qed

lemma log10_14_lower: "55 / 48 < log 10 14"
proof -
  have "(10::real) ^ 55 < 14 ^ 48" by simp
  then have "log 10 ((10::real) ^ 55) < log 10 (14 ^ 48)"
    by (subst log_less_cancel_iff) simp_all
  moreover have "log 10 ((10::real) ^ 55) = 55"
    using log_nat_power[of "10::real" 10 55] by simp
  moreover have "log 10 ((14::real) ^ 48) = 48 * log 10 14"
    using log_nat_power[of "14::real" 10 48] by simp
  ultimately show ?thesis by linarith
qed

lemma log10_14_upper: "log 10 14 < 23 / 20"
proof -
  have "(14::real) ^ 20 < 10 ^ 23" by simp
  then have "log 10 ((14::real) ^ 20) < log 10 (10 ^ 23)"
    by (subst log_less_cancel_iff) simp_all
  moreover have "log 10 ((10::real) ^ 23) = 23"
    using log_nat_power[of "10::real" 10 23] by simp
  moreover have "log 10 ((14::real) ^ 20) = 20 * log 10 14"
    using log_nat_power[of "14::real" 10 20] by simp
  ultimately show ?thesis by linarith
qed

lemma split_five: "split (str ''one two three four five'') =
    [str ''one'', str ''two'', str ''three'', str ''four'', str ''five'']"
  by (simp add: str_def isspace_def)

lemma confidence_example: "confidence_heuristic (str ''one two three four five'') True = 0.765"
proof -
  have raw: "raw_confidence (str ''one two three four five'') True = 0.65 + log 10 14 / 10"
    using log10_14_upper by (simp add: raw_confidence_def Let_def split_five)
  have lo: "real_of_int 765 - 1 / 2 < (0.65 + log 10 14 / 10) * 1000"
    using log10_14_lower by simp
  have hi: "(0.65 + log 10 14 / 10) * 1000 < real_of_int 765 + 1 / 2"
    using log10_14_upper by simp
  have "py_round3 (0.65 + log 10 14 / 10) = real_of_int 765 / 1000"
    using lo hi by (rule py_round3_near)
  with raw show ?thesis
    by (simp add: confidence_heuristic_def Let_def)
qed

lemma word_starts_inside:
  "word_starts False cs = word_starts True (dropWhile (\<lambda>x. \<not> isspace x) cs)"
  by (induction cs) simp_all

lemma length_split: "length (split s) = spec_word_count s"
  unfolding spec_word_count_def
  by (induction s rule: split.induct) (simp_all add: word_starts_inside)

text \<open>
  Claim C3: for every text and flag the heuristic returns the value of 0.55, plus the
  length bonus min(0.30, log10(max(1, word count) + 9) / 10), plus 0.10 when the external
  call succeeded, rounded to three decimals and clamped to [0.50, 0.98]; the word count
  is the number of whitespace-separated words. On "one two three four five" with a
  successful call the result is 0.765.
\<close>

theorem confidence_formula:
  "confidence_heuristic text ok =
     max 0.50 (min 0.98 (py_round3
       (0.55 + min 0.30 (log 10 (real (max 1 (spec_word_count text) + 9)) / 10)
             + (if ok then 0.10 else 0.0)))) \<and>
   confidence_heuristic (str ''one two three four five'') True = 0.765"
proof (rule conjI)
  show "confidence_heuristic text ok =
     max 0.50 (min 0.98 (py_round3
       (0.55 + min 0.30 (log 10 (real (max 1 (spec_word_count text) + 9)) / 10)
             + (if ok then 0.10 else 0.0))))"
    by (simp add: confidence_heuristic_def raw_confidence_def Let_def length_split)
  show "confidence_heuristic (str ''one two three four five'') True = 0.765"
    by (rule confidence_example)
qed

theorem confidence_formula_witness:
  "spec_word_count (str ''hello'') = 1 \<and> confidence_heuristic (str ''hello'') False = 0.65"
proof -
  have "py_round3 (13 / 20) = real_of_int 650 / 1000"
    by (rule py_round3_near) simp_all
  moreover have wc: "spec_word_count (str ''hello'') = 1"
    by (simp add: spec_word_count_def str_def isspace_def)
  ultimately show ?thesis
    using confidence_formula[of "str ''hello''" False] by simp
qed

text \<open>
  Claim C4: for every text and both flag values the result lies in [0.50, 0.98] and is
  its own rounding to three decimals.
\<close>

theorem confidence_range_rounded:
  "0.50 \<le> confidence_heuristic text ok \<and> confidence_heuristic text ok \<le> 0.98 \<and>
   py_round3 (confidence_heuristic text ok) = confidence_heuristic text ok"
proof -
  obtain m :: int where m: "py_round3 (raw_confidence text ok) = real_of_int m / 1000"
    using py_round3_cases by blast
  have "confidence_heuristic text ok = real_of_int (max 500 (min 980 m)) / 1000"
    by (simp add: confidence_heuristic_def Let_def m max_def min_def)
  then have "py_round3 (confidence_heuristic text ok) = confidence_heuristic text ok"
    by (simp only: py_round3_of_int)
  then show ?thesis
    by (simp add: confidence_heuristic_def Let_def)
qed

text \<open>
  Claim C8: the rounded value before the clamp already lies in [0.65, 0.95], so the clamp
  leaves it unchanged and the result lies in [0.65, 0.95].
\<close>

theorem confidence_clamp_idle:
  "0.65 \<le> py_round3 (raw_confidence text ok) \<and> py_round3 (raw_confidence text ok) \<le> 0.95 \<and>
   confidence_heuristic text ok = py_round3 (raw_confidence text ok) \<and>
   0.65 \<le> confidence_heuristic text ok \<and> confidence_heuristic text ok \<le> 0.95"
proof -
  have "real_of_int 650 / 1000 \<le> py_round3 (raw_confidence text ok)"
    by (rule py_round3_lower) (use raw_confidence_bounds(1)[of "text" ok] in simp)
  moreover have "py_round3 (raw_confidence text ok) \<le> real_of_int 950 / 1000"
    by (rule py_round3_upper) (use raw_confidence_bounds(2)[of "text" ok] in simp)
  ultimately show ?thesis
    by (simp add: confidence_heuristic_def Let_def)
qed

section \<open>Properties of the in-memory storage\<close>

lemma isspace_lower_cp: "isspace (lower_cp c) = isspace c"
  by (auto simp: lower_cp_def is_upper_cp_def isspace_def)

lemma dropWhile_space_lower: "dropWhile isspace (lower s) = lower (dropWhile isspace s)"
  by (induction s) (simp_all add: lower_def isspace_lower_cp)

lemma strip_lower: "strip (lower s) = lower (strip s)"
proof -
  have "rev (lower s) = lower (rev s)" for s
    by (simp add: lower_def rev_map)
  then show ?thesis
    by (simp add: strip_def dropWhile_space_lower)
qed

lemma lower_idem: "lower (lower s) = lower s"
  by (simp add: lower_def lower_cp_idem)

lemma lower_eq_Nil: "lower s = [] \<longleftrightarrow> s = []"
  by (simp add: lower_def)

lemma search_loop_filter:
  "search_loop lw q h rs results =
     results @ filter (\<lambda>r. q \<in> lw ` (set (topics (h ! r)) \<union> set (row_keywords (h ! r)))) rs"
  by (induction rs arbitrary: results) (simp_all add: Let_def image_Un)

lemma search_unfold:
  "search lw topic st =
     (if strip (lw topic) = [] then db_rows st
      else filter (\<lambda>r. strip (lw topic) \<in>
                    lw ` (set (topics (heap st ! r)) \<union> set (row_keywords (heap st ! r))))
             (db_rows st))"
  by (simp add: search_def Let_def search_loop_filter)

lemma lowered_matches:
  "lw q = q \<Longrightarrow> q \<in> lw ` (set (topics r) \<union> set (row_keywords r)) \<longleftrightarrow> spec_matches lw q r"
  by (auto simp: spec_matches_def)

lemma table_lower_keeps_blank: "lower_keeps_blank lower"
  by (simp add: lower_keeps_blank_def strip_lower lower_eq_Nil)

lemma table_lower_fixes_lowered: "lower_fixes_lowered lower"
  by (simp add: lower_fixes_lowered_def strip_lower lower_idem)

lemma insert_analysis_unfold:
  "insert_analysis uuid row_ref st =
     (length (heap st),
      \<lparr>heap = heap st @ [(heap st ! row_ref)\<lparr>row_id :=
                 (if falsy_id (row_id (heap st ! row_ref)) then Some uuid else row_id (heap st ! row_ref))\<rparr>],
       db_rows = db_rows st @ [length (heap st)]\<rparr>)"
  by (simp add: insert_analysis_def dict_copy_def Let_def)

lemmas dv = str_def isspace_def strip_def is_upper_cp_def lower_cp_def lower_def
  demo_row_def

text \<open>
  Claim C2, for any lowercasing function \<open>lw\<close>. The search returns the stored list when
  the lowercased query is blank, and otherwise the stored records, in insertion order,
  of which the lowercase form of some whole entry of \<open>topics\<close> or \<open>keywords\<close> is the
  lowercased and trimmed query. With the two properties of \<open>str.lower()\<close> named above
  this reads as the claim does: a search with an empty or blank query returns all stored
  records in insertion order, and a search with any other query returns exactly the
  stored records of which some entry of \<open>topics\<close> or \<open>keywords\<close> equals the lowercased
  and trimmed query when case is ignored. Entries are compared whole, so the query \<open>ai\<close>
  does not match the keyword \<open>air\<close>.
\<close>

theorem search_exact_match:
  "search lw topic st =
     (if strip (lw topic) = [] then db_rows st
      else filter (\<lambda>r. strip (lw topic) \<in>
                    lw ` (set (topics (heap st ! r)) \<union> set (row_keywords (heap st ! r))))
             (db_rows st)) \<and>
   (lower_keeps_blank lw \<and> lower_fixes_lowered lw \<longrightarrow>
      (strip topic = [] \<longrightarrow> search lw topic st = db_rows st) \<and>
      (strip topic \<noteq> [] \<longrightarrow>
         search lw topic st =
           filter (\<lambda>r. spec_matches lw (strip (lw topic)) (heap st ! r)) (db_rows st)))"
proof (intro conjI impI)
  show "search lw topic st =
     (if strip (lw topic) = [] then db_rows st
      else filter (\<lambda>r. strip (lw topic) \<in>
                    lw ` (set (topics (heap st ! r)) \<union> set (row_keywords (heap st ! r))))
             (db_rows st))"
    by (rule search_unfold)
next
  assume "lower_keeps_blank lw \<and> lower_fixes_lowered lw" and "strip topic = []"
  then have "strip (lw topic) = []" by (simp add: lower_keeps_blank_def)
  then show "search lw topic st = db_rows st" by (simp add: search_unfold)
next
  assume laws: "lower_keeps_blank lw \<and> lower_fixes_lowered lw" and "strip topic \<noteq> []"
  then have nb: "strip (lw topic) \<noteq> []" by (simp add: lower_keeps_blank_def)
  from laws have "lw (strip (lw topic)) = strip (lw topic)"
    by (simp add: lower_fixes_lowered_def)
  then have "(strip (lw topic) \<in> lw ` (set (topics r) \<union> set (row_keywords r)))
               = spec_matches lw (strip (lw topic)) r" for r
    by (rule lowered_matches)
  with nb show "search lw topic st =
      filter (\<lambda>r. spec_matches lw (strip (lw topic)) (heap st ! r)) (db_rows st)"
    by (simp add: search_unfold)
qed

text \<open>
  An instance with the Latin-1 table for \<open>lw\<close>; the strings are ASCII, where the table
  is \<open>str.lower()\<close>.
\<close>

theorem search_exact_match_witness:
  "lower_keeps_blank lower \<and> lower_fixes_lowered lower \<and>
   strip (str ''  '') = [] \<and> search lower (str ''  '') demo_store = [0, 1] \<and>
   strip (str '' Ai '') \<noteq> [] \<and> search lower (str '' Ai '') demo_store = [1]"
  using search_exact_match[of lower "str ''  ''" demo_store]
    search_exact_match[of lower "str '' Ai ''" demo_store]
    table_lower_keeps_blank table_lower_fixes_lowered
  by (simp add: demo_store_def dv)

text \<open>
  A query in another letter case beyond Latin-1: whatever else \<open>lw\<close> does, if it maps the
  two Cyrillic capitals U+0418 to the two small letters U+0438 and leaves these as they
  are, the search for the capitals finds the record stored with the small letters.
\<close>

lemma search_cyrillic_variant:
  assumes "lw [1048, 1048] = [1080, 1080]" and "lw [1080, 1080] = [1080, 1080]"
  shows "search lw [1048, 1048] cyrillic_store = [0]"
  using assms
  by (simp add: search_unfold cyrillic_store_def demo_row_def strip_def isspace_def)

text \<open>
  Claim C7, read as written, fails for a keyword with whitespace at an end: the query is
  trimmed before the comparison and the stored entries are not. With the keyword \<open> ai\<close>
  (a leading space) stored, the search for \<open> ai\<close> looks for \<open>ai\<close> and finds nothing. This
  needs of \<open>lw\<close> only that it leaves the lowercase ASCII strings \<open> ai\<close> and \<open>tech\<close> as
  they are, as \<open>str.lower()\<close> does.
\<close>

lemma blank_edge_search:
  assumes "lw (str '' ai'') = str '' ai''" and "lw (str ''tech'') = str ''tech''"
  shows "search lw (str '' ai'') (snd (insert_analysis uuid 0 blank_edge_store)) = []"
proof -
  have q: "strip (str '' ai'') = str ''ai''"
    by (simp add: str_def strip_def isspace_def)
  have ne: "str ''ai'' \<noteq> []" "str ''ai'' \<noteq> str ''tech''" "str ''ai'' \<noteq> str '' ai''"
    by (simp_all add: str_def)
  show ?thesis
    using assms ne
    by (simp add: search_unfold q blank_edge_store_def demo_row_def insert_analysis_unfold)
qed

theorem insert_then_search_blank_edge_counterexample:
  "strip (str '' ai'') \<noteq> [] \<and>
   str '' ai'' \<in> set (row_keywords (heap blank_edge_store ! 0)) \<and>
   lower (str '' ai'') = str '' ai'' \<and>
   search lower (str '' ai'') (snd (insert_analysis (str ''u-1'') 0 blank_edge_store)) = []"
proof -
  have l: "lower (str '' ai'') = str '' ai''" "lower (str ''tech'') = str ''tech''"
    by (simp_all add: str_def lower_def lower_cp_def is_upper_cp_def)
  have "strip (str '' ai'') \<noteq> []"
    by (simp add: str_def strip_def isspace_def)
  moreover have "str '' ai'' \<in> set (row_keywords (heap blank_edge_store ! 0))"
    by (simp add: blank_edge_store_def demo_row_def)
  ultimately show ?thesis
    using l blank_edge_search[OF l, of "str ''u-1''"] by simp
qed

text \<open>
  Claim C7, as amended, for any lowercasing function \<open>lw\<close>: for every store and every
  record whose keywords contain an entry \<open>k\<close> whose lowercase form has no leading or
  trailing whitespace, inserting the record and then searching for \<open>k\<close> in any letter
  case (any query with the lowercase form of \<open>k\<close>) returns a result that contains the
  inserted record, hence a record with its id. The lowercase form of \<open>k\<close> has no such
  whitespace when \<open>k\<close> has none and lowercasing commutes with trimming, as
  \<open>str.lower()\<close> does.
\<close>

theorem insert_then_search_keyword:
  assumes "row_ref < length (heap st)"
    and "k \<in> set (row_keywords (heap st ! row_ref))"
    and "lw q = lw k"
    and "strip (lw k) = lw k \<or> ((\<forall>s. strip (lw s) = lw (strip s)) \<and> strip k = k)"
  shows "case insert_analysis uuid row_ref st of (item, st') \<Rightarrow>
           item \<in> set (search lw q st') \<and>
           (\<exists>r\<in>set (search lw q st'). row_id (heap st' ! r) = row_id (heap st' ! item))"
proof -
  obtain item st' where ins: "insert_analysis uuid row_ref st = (item, st')"
    by (cases "insert_analysis uuid row_ref st")
  then have item: "item \<in> set (db_rows st')"
    and kws: "row_keywords (heap st' ! item) = row_keywords (heap st ! row_ref)"
    by (auto simp: insert_analysis_unfold)
  from assms(4) have "strip (lw k) = lw k"
    by (elim disjE conjE) simp_all
  with assms(3) have "strip (lw q) = lw k" by simp
  then have "strip (lw q) \<in> lw ` (set (topics (heap st' ! item)) \<union> set (row_keywords (heap st' ! item)))"
    using assms(2) kws by simp
  with item have "item \<in> set (search lw q st')"
    by (simp add: search_unfold)
  with ins show ?thesis by auto
qed

theorem insert_then_search_keyword_witness:
  "case insert_analysis (str ''u-1'') 0 model_store of (item, st') \<Rightarrow>
     item \<in> set (search lower (str ''MODEL'') st') \<and> search lower (str ''MODEL'') st' = [1]"
  using insert_then_search_keyword[of 0 model_store "str ''Model''" lower "str ''MODEL''" "str ''u-1''"]
  by (simp add: model_store_def insert_analysis_unfold falsy_id_def search_def dv)

text \<open>
  Claim C10: \<open>insert_analysis\<close> appends exactly one reference to the stored list and
  keeps the earlier ones in order; the new reference is to a new dictionary, different
  from the caller's and from every stored one; all dictionaries that existed before,
  the caller's row and the stored records among them, are unchanged; the new dictionary
  equals the caller's row, except that \<open>id\<close> holds the generated identifier when the
  row's \<open>id\<close> was missing, \<open>None\<close> or empty.
\<close>

theorem insert_analysis_frame:
  assumes "row_ref < length (heap st)" and "\<forall>a\<in>set (db_rows st). a < length (heap st)"
  shows "case insert_analysis uuid row_ref st of (item, st') \<Rightarrow>
           db_rows st' = db_rows st @ [item] \<and>
           item \<notin> set (db_rows st) \<and> item \<noteq> row_ref \<and>
           length (heap st') = length (heap st) + 1 \<and>
           take (length (heap st)) (heap st') = heap st \<and>
           (\<forall>a\<in>set (db_rows st). heap st' ! a = heap st ! a) \<and>
           heap st' ! row_ref = heap st ! row_ref \<and>
           heap st' ! item =
             (if falsy_id (row_id (heap st ! row_ref))
              then (heap st ! row_ref)\<lparr>row_id := Some uuid\<rparr>
              else heap st ! row_ref)"
  using assms by (auto simp: insert_analysis_unfold nth_append)

theorem insert_analysis_frame_witness:
  "case insert_analysis (str ''u-1'') 1 demo_store of (item, st') \<Rightarrow>
     item = 2 \<and> db_rows st' = [0, 1, 2] \<and> heap st' ! 0 = heap demo_store ! 0 \<and>
     heap st' ! 1 = heap demo_store ! 1 \<and>
     heap st' ! 2 = (heap demo_store ! 1)\<lparr>row_id := Some (str ''u-1'')\<rparr>"
  using insert_analysis_frame[of 1 demo_store "str ''u-1''"]
  by (simp add: demo_store_def demo_row_def falsy_id_def insert_analysis_unfold)

section \<open>Properties of the analyze endpoint\<close>

lemma llm_try_fails:
  "llm_fails e t w \<Longrightarrow> fst (llm_try e t w) = llm_fallback"
  by (auto simp: llm_fails_def llm_try_def split: prod.splits sum.splits)

lemma analyze_single_blank:
  "strip t = [] \<Longrightarrow> analyze_single e t s = (Inl (HTTPException 400 (str ''Empty input text.'')), s)"
  by (cases s) (simp add: analyze_single_def)

lemma analyze_single_ok:
  assumes "strip t \<noteq> []"
  shows "\<exists>a x st' w'. analyze_single e t (st, w) = (Inr a, (st', w')) \<and>
           row_text a = strip t \<and>
           row_keywords a = extract_top3_nouns_like (strip t) \<and>
           heap st' = heap st @ [x, a] \<and>
           db_rows st' = db_rows st @ [length (heap st) + 1] \<and>
           (llm_fails e (strip t) w \<longrightarrow> is_fallback (strip t) a)"
proof -
  obtain su ti tp se ok w1 where l: "llm_try e (strip t) w = ((su, ti, tp, se, ok), w1)"
    by (metis prod_cases5 surj_pair)
  obtain u w2 where u: "uuid4 e w1 = (u, w2)"
    by (cases "uuid4 e w1")
  have fb: "llm_fails e (strip t) w \<Longrightarrow> (su, ti, tp, se, ok) = llm_fallback"
    using llm_try_fails[of e "strip t" w] l by simp
  show ?thesis
    using assms fb
    by (auto simp: analyze_single_def Let_def l u dict_new_def insert_analysis_unfold falsy_id_def
        nth_append is_fallback_def llm_fallback_def)
qed

lemma analyze_loop_state:
  "snd (analyze_loop e its acc s) = snd (analyze_loop e its acc' s)"
proof (induction its arbitrary: acc acc' s)
  case Nil
  then show ?case by simp
next
  case (Cons t ts)
  obtain r s1 where "analyze_single e t s = (r, s1)"
    by (cases "analyze_single e t s")
  then show ?case
    using Cons.IH by (cases r) simp_all
qed

lemma state_before_0: "state_before e its s 0 = s"
  by (simp add: state_before_def)

lemma state_before_Suc:
  "analyze_single e t s = (Inr a, s1) \<Longrightarrow> state_before e (t # ts) s (Suc i) = state_before e ts s1 i"
  using analyze_loop_state[of e "take i ts" "[a]" s1 "[]"] by (simp add: state_before_def)

lemma analyze_loop_ok:
  assumes "\<forall>t\<in>set its. strip t \<noteq> []"
  shows "\<exists>rs s' hs new. analyze_loop e its acc s = (Inr (acc @ rs), s') \<and>
           length rs = length its \<and>
           heap (fst s') = heap (fst s) @ hs \<and>
           db_rows (fst s') = db_rows (fst s) @ new \<and>
           map (\<lambda>r. heap (fst s') ! r) new = rs \<and>
           (\<forall>i<length its. row_text (rs ! i) = strip (its ! i) \<and>
              (llm_fails e (strip (its ! i)) (snd (state_before e its s i))
                 \<longrightarrow> is_fallback (strip (its ! i)) (rs ! i)))"
  using assms
proof (induction its arbitrary: acc s)
  case Nil
  then show ?case by simp
next
  case (Cons t ts)
  obtain st w where s: "s = (st, w)" by (cases s)
  from Cons.prems have t: "strip t \<noteq> []" and ts: "\<forall>t\<in>set ts. strip t \<noteq> []" by simp_all
  from analyze_single_ok[OF t, of e st w] obtain a x st1 w1 where
    single: "analyze_single e t (st, w) = (Inr a, (st1, w1))"
    and rt: "row_text a = strip t"
    and h1: "heap st1 = heap st @ [x, a]"
    and d1: "db_rows st1 = db_rows st @ [length (heap st) + 1]"
    and fb: "llm_fails e (strip t) w \<longrightarrow> is_fallback (strip t) a"
    by blast
  from Cons.IH[OF ts, of "acc @ [a]" "(st1, w1)"] obtain rs s' hs new where
    loop: "analyze_loop e ts (acc @ [a]) (st1, w1) = (Inr ((acc @ [a]) @ rs), s')"
    and len: "length rs = length ts"
    and h2': "heap (fst s') = heap (fst (st1, w1)) @ hs"
    and d2': "db_rows (fst s') = db_rows (fst (st1, w1)) @ new"
    and m2: "map (\<lambda>r. heap (fst s') ! r) new = rs"
    and each: "\<forall>i<length ts. row_text (rs ! i) = strip (ts ! i) \<and>
              (llm_fails e (strip (ts ! i)) (snd (state_before e ts (st1, w1) i))
                 \<longrightarrow> is_fallback (strip (ts ! i)) (rs ! i))"
    by blast
  have h2: "heap (fst s') = heap st1 @ hs" and d2: "db_rows (fst s') = db_rows st1 @ new"
    using h2' d2' by simp_all
  have r1: "heap (fst s') ! (length (heap st) + 1) = a"
    by (simp add: h2 h1 nth_append)
  have each': "row_text ((a # rs) ! i) = strip ((t # ts) ! i) \<and>
              (llm_fails e (strip ((t # ts) ! i)) (snd (state_before e (t # ts) s i))
                 \<longrightarrow> is_fallback (strip ((t # ts) ! i)) ((a # rs) ! i))"
    if "i < length (t # ts)" for i
  proof (cases i)
    case 0
    then show ?thesis using rt fb by (simp add: state_before_0 s)
  next
    case (Suc j)
    with that have "j < length ts" by simp
    with each Suc show ?thesis
      using state_before_Suc[OF single, of ts j] by (simp add: s)
  qed
  have f1: "analyze_loop e (t # ts) acc s = (Inr (acc @ (a # rs)), s')"
    using single loop by (simp add: s)
  have f2: "length (a # rs) = length (t # ts)" using len by simp
  have f3: "heap (fst s') = heap (fst s) @ ([x, a] @ hs)" by (simp add: h2 h1 s)
  have f4: "db_rows (fst s') = db_rows (fst s) @ ((length (heap st) + 1) # new)"
    by (simp add: d2 d1 s)
  have f5: "map (\<lambda>r. heap (fst s') ! r) ((length (heap st) + 1) # new) = a # rs"
    using r1 m2 by simp
  have f6: "\<forall>i<length (t # ts). row_text ((a # rs) ! i) = strip ((t # ts) ! i) \<and>
              (llm_fails e (strip ((t # ts) ! i)) (snd (state_before e (t # ts) s i))
                 \<longrightarrow> is_fallback (strip ((t # ts) ! i)) ((a # rs) ! i))"
    using each' by blast
  show ?case
    apply (rule exI[of _ "a # rs"])
    apply (rule exI[of _ s'])
    apply (rule exI[of _ "[x, a] @ hs"])
    apply (rule exI[of _ "(length (heap st) + 1) # new"])
    using f1 f2 f3 f4 f5 f6 apply blast
    done
qed

lemma analyze_loop_blank:
  assumes "\<exists>t\<in>set its. strip t = []"
  shows "\<exists>x s'. analyze_loop e its acc s = (Inl x, s')"
  using assms
proof (induction its arbitrary: acc s)
  case Nil
  then show ?case by simp
next
  case (Cons t ts)
  show ?case
  proof (cases "strip t = []")
    case True
    then show ?thesis by (simp add: analyze_single_blank)
  next
    case False
    obtain st w where s: "s = (st, w)" by (cases s)
    from analyze_single_ok[OF False, of e st w] obtain a s1 where
      single: "analyze_single e t s = (Inr a, s1)"
      unfolding s by blast
    from False Cons.prems have "\<exists>t\<in>set ts. strip t = []" by auto
    from Cons.IH[OF this, of "acc @ [a]" s1] single show ?thesis by simp
  qed
qed

lemma analyze_as_loop:
  "request_items payload \<noteq> [] \<Longrightarrow> analyze e payload s = analyze_loop e (request_items payload) [] s"
  by (auto simp: analyze_def request_items_def split: option.splits)

lemma analyze_no_items:
  "request_items payload = [] \<Longrightarrow> \<exists>x. analyze e payload s = (Inl x, s)"
  by (auto simp: analyze_def request_items_def split: option.splits)

text \<open>
  Claim C6, with the in-memory backend. A request is answered with results exactly when
  it names at least one text and none of its texts is blank: no behaviour of the language
  model aborts it. It then returns one result per text, in order, and each result is
  persisted. Where the language model call fails for an item, the result of that item
  carries the fixed fallback summary, no title, the topics \<open>general\<close>, \<open>unknown\<close>,
  \<open>llm-failure\<close>, the sentiment \<open>neutral\<close>, and the confidence computed with the flag
  false; the other items are processed all the same.
\<close>

theorem llm_failure_degrades_item:
  "((\<exists>results s'. analyze e payload s = (Inr results, s')) \<longleftrightarrow>
      request_items payload \<noteq> [] \<and> (\<forall>t\<in>set (request_items payload). strip t \<noteq> [])) \<and>
   (request_items payload \<noteq> [] \<and> (\<forall>t\<in>set (request_items payload). strip t \<noteq> []) \<longrightarrow>
      (\<exists>results s' new.
           analyze e payload s = (Inr results, s') \<and>
           length results = length (request_items payload) \<and>
           db_rows (fst s') = db_rows (fst s) @ new \<and>
           map (\<lambda>r. heap (fst s') ! r) new = results \<and>
           (\<forall>i<length (request_items payload).
              row_text (results ! i) = strip (request_items payload ! i) \<and>
              (llm_fails e (strip (request_items payload ! i))
                   (snd (state_before e (request_items payload) s i))
                 \<longrightarrow> is_fallback (strip (request_items payload ! i)) (results ! i)))))"
proof -
  let ?its = "request_items payload"
  let ?valid = "?its \<noteq> [] \<and> (\<forall>t\<in>set ?its. strip t \<noteq> [])"
  let ?done = "\<exists>results s' new.
           analyze e payload s = (Inr results, s') \<and>
           length results = length ?its \<and>
           db_rows (fst s') = db_rows (fst s) @ new \<and>
           map (\<lambda>r. heap (fst s') ! r) new = results \<and>
           (\<forall>i<length ?its.
              row_text (results ! i) = strip (?its ! i) \<and>
              (llm_fails e (strip (?its ! i)) (snd (state_before e ?its s i))
                 \<longrightarrow> is_fallback (strip (?its ! i)) (results ! i)))"
  have ok: ?done if v: ?valid
  proof -
    from v have nb: "\<forall>t\<in>set ?its. strip t \<noteq> []" by simp
    from analyze_loop_ok[OF nb, of e "[]" s] obtain rs s' hs new where
      "analyze_loop e ?its [] s = (Inr ([] @ rs), s')" "length rs = length ?its"
      "heap (fst s') = heap (fst s) @ hs"
      "db_rows (fst s') = db_rows (fst s) @ new" "map (\<lambda>r. heap (fst s') ! r) new = rs"
      "\<forall>i<length ?its. row_text (rs ! i) = strip (?its ! i) \<and>
                (llm_fails e (strip (?its ! i)) (snd (state_before e ?its s i))
                   \<longrightarrow> is_fallback (strip (?its ! i)) (rs ! i))"
      by blast
    moreover have "analyze e payload s = analyze_loop e ?its [] s"
      using v by (simp add: analyze_as_loop)
    ultimately show ?thesis by simp
  qed
  have bad: "\<not> (\<exists>results s'. analyze e payload s = (Inr results, s'))" if nv: "\<not> ?valid"
  proof (cases "?its = []")
    case True
    then show ?thesis using analyze_no_items[of payload e s] by auto
  next
    case False
    with nv have "\<exists>t\<in>set ?its. strip t = []" by simp
    from analyze_loop_blank[OF this, of e "[]" s] False show ?thesis
      by (auto simp: analyze_as_loop)
  qed
  have "(\<exists>results s'. analyze e payload s = (Inr results, s')) \<longleftrightarrow> ?valid"
    using ok bad by blast
  with ok show ?thesis by blast
qed

theorem llm_failure_degrades_item_witness:
  "\<exists>results s'.
     analyze demo_env \<lparr>req_text = None, req_items = Some [str ''Alpha beta'', str '' Gamma delta'']\<rparr>
       (\<lparr>heap = [], db_rows = []\<rparr>, 0) = (Inr results, s') \<and>
     length results = 2 \<and>
     is_fallback (str ''Alpha beta'') (results ! 0) \<and>
     row_text (results ! 1) = str ''Gamma delta'' \<and>
     length (db_rows (fst s')) = 2"
proof -
  let ?p = "\<lparr>req_text = None, req_items = Some [str ''Alpha beta'', str '' Gamma delta'']\<rparr>"
  let ?s = "(\<lparr>heap = [], db_rows = []\<rparr>, 0::nat)"
  have its: "request_items ?p = [str ''Alpha beta'', str '' Gamma delta'']"
    by (simp add: request_items_def)
  have s1: "strip (str ''Alpha beta'') = str ''Alpha beta''"
    and s2: "strip (str '' Gamma delta'') = str ''Gamma delta''"
    by (simp_all add: str_def strip_def isspace_def)
  have ne: "str ''Alpha beta'' \<noteq> []" "str ''Gamma delta'' \<noteq> []"
    by (simp_all add: str_def)
  have h: "request_items ?p \<noteq> [] \<and> (\<forall>t\<in>set (request_items ?p). strip t \<noteq> [])"
    using ne by (simp add: its s1 s2)
  have fails: "llm_fails demo_env (strip (request_items ?p ! 0)) (snd (state_before demo_env (request_items ?p) ?s 0))"
    by (simp add: state_before_0 llm_fails_def demo_env_def)
  from llm_failure_degrades_item[of demo_env ?p ?s] h obtain results s' new where
    r: "analyze demo_env ?p ?s = (Inr results, s')"
    and len: "length results = length (request_items ?p)"
    and db: "db_rows (fst s') = db_rows (fst ?s) @ new"
    and mp: "map (\<lambda>r. heap (fst s') ! r) new = results"
    and each: "\<forall>i<length (request_items ?p).
              row_text (results ! i) = strip (request_items ?p ! i) \<and>
              (llm_fails demo_env (strip (request_items ?p ! i))
                   (snd (state_before demo_env (request_items ?p) ?s i))
                 \<longrightarrow> is_fallback (strip (request_items ?p ! i)) (results ! i))"
    by blast
  have i0: "0 < length (request_items ?p)" and i1: "1 < length (request_items ?p)"
    by (simp_all add: its)
  from each[rule_format, OF i0] fails
  have "is_fallback (strip (request_items ?p ! 0)) (results ! 0)"
    by blast
  then have fb: "is_fallback (str ''Alpha beta'') (results ! 0)"
    by (simp add: its s1)
  from each[rule_format, OF i1]
  have "row_text (results ! 1) = strip (request_items ?p ! 1)"
    by blast
  then have t1: "row_text (results ! 1) = str ''Gamma delta''"
    by (simp add: its s2)
  from mp len have "length new = 2" by (auto simp: its)
  with db have "length (db_rows (fst s')) = 2" by simp
  with r len fb t1 show ?thesis by (simp add: its)
qed

end
